theory Spec2Isabelle
  imports Main "HOL-Library.Word"
begin

section \<open>Strings and front-matter values\<close>

text \<open>
  A JavaScript string is a sequence of 16-bit code units. \<open>str\<close> writes a string of
  characters below U+0100 as such a sequence.
\<close>

type_synonym jsstring = "16 word list"

definition codeUnit :: "char \<Rightarrow> 16 word" where
  "codeUnit c = of_char c"

definition str :: "string \<Rightarrow> jsstring" where
  "str s = map codeUnit s"

text \<open>
  The values found in a document's front-matter are JavaScript values. The plugin only
  tests them for truthiness, compares them with \<^verbatim>\<open>!==\<close> and interpolates them into a
  template literal. A number is kept as the 64 bits of its IEEE 754 representation, so every
  number of the language has a term; an array or an object is kept as its identity
  (\<open>JObj\<close>), since strict equality on objects is identity.
\<close>

datatype jsval =
    JUndefined
  | JNull
  | JBool bool
  | JNum "64 word"
  | JStr jsstring
  | JObj nat

text \<open>The two zeros, and the bit patterns that are NaN.\<close>

definition isZero :: "64 word \<Rightarrow> bool" where
  "isZero w = (w = 0 \<or> w = 0x8000000000000000)"

definition isNaN :: "64 word \<Rightarrow> bool" where
  "isNaN w = ((0x7FF0000000000000 < w \<and> w \<le> 0x7FFFFFFFFFFFFFFF) \<or> 0xFFF0000000000000 < w)"

fun truthy :: "jsval \<Rightarrow> bool" where
  "truthy JUndefined = False"
| "truthy JNull = False"
| "truthy (JBool b) = b"
| "truthy (JNum w) = (\<not> isZero w \<and> \<not> isNaN w)"
| "truthy (JStr s) = (s \<noteq> [])"
| "truthy (JObj r) = True"

text \<open>
  \<^verbatim>\<open>a === b\<close>: two numbers are equal when neither is NaN and they are the same number,
  the two zeros being equal; other values are equal when they are the same value.
\<close>

fun strictEq :: "jsval \<Rightarrow> jsval \<Rightarrow> bool" where
  "strictEq (JNum a) (JNum b) = (\<not> isNaN a \<and> \<not> isNaN b \<and> (a = b \<or> (isZero a \<and> isZero b)))"
| "strictEq a b = (a = b)"

text \<open>
  Property access \<^verbatim>\<open>obj[key]\<close>: a missing property reads as \<^verbatim>\<open>undefined\<close>. The map
  of a front-matter object gives every property that a lookup finds on it.
\<close>

definition getProperty :: "(jsstring \<rightharpoonup> jsval) \<Rightarrow> jsstring \<Rightarrow> jsval" where
  "getProperty obj k = (case obj k of None \<Rightarrow> JUndefined | Some v \<Rightarrow> v)"

section \<open>Settings, host and plugin state\<close>

record group =
  watchedField :: jsstring
  active :: bool

record header_group = group +
  header :: jsstring

record command_group = group +
  command :: jsstring

record settings =
  headerGroups :: "header_group list"
  commandGroups :: "command_group list"

record tfile =
  path :: jsstring

text \<open>
  A match of a regular expression in a text: the text before the match, the matched text,
  the capture groups in order (a group that took no part is absent), the named groups if
  the pattern has any, and the text after the match.
\<close>

record regex_match =
  matchPre :: jsstring
  matchText :: jsstring
  matchGroups :: "jsstring option list"
  matchNamed :: "(jsstring \<times> jsstring option) list option"
  matchPost :: jsstring

text \<open>
  The services of the language and of the host application that the plugin calls: the
  metadata cache (\<^verbatim>\<open>getFileCache(file)?.frontmatter\<close>, absent when the document has no
  front-matter), the text that string conversion gives for a number and for an object,
  \<^verbatim>\<open>new RegExp(source, "m")\<close> (absent when the constructor throws a SyntaxError, else the
  function from a text to its first match), whether \<^verbatim>\<open>vault.modify\<close> of a path is
  accepted, and whether \<^verbatim>\<open>executeCommandById\<close> of an identifier throws.
\<close>

record host =
  frontmatter :: "jsstring \<Rightarrow> (jsstring \<rightharpoonup> jsval) option"
  numberText :: "64 word \<Rightarrow> jsstring"
  objectText :: "nat \<Rightarrow> jsstring"
  newRegExp :: "jsstring \<Rightarrow> (jsstring \<Rightarrow> regex_match option) option"
  writable :: "jsstring \<Rightarrow> bool"
  commandThrows :: "jsstring \<Rightarrow> bool"

text \<open>
  The calls issued to the host are recorded in a trace. \<open>ExecuteCommand f c\<close> stands for
  \<^verbatim>\<open>executeCommandById(c)\<close> issued by a command group watching field \<open>f\<close>.
\<close>

datatype event =
    VaultRead jsstring
  | VaultModify jsstring jsstring
  | ExecuteCommand jsstring jsstring

datatype failure =
    ReadFailed jsstring
  | ModifyFailed jsstring
  | CommandFailed jsstring
  | PatternSyntaxError jsstring

record world =
  lastMetadataValues :: "jsstring \<rightharpoonup> jsval"
  vault :: "jsstring \<rightharpoonup> jsstring"
  trace :: "event list"

text \<open>The key \<^verbatim>\<open>`${file.path}-${group.watchedField}`\<close> of the baseline cache.\<close>

definition cacheKey :: "tfile \<Rightarrow> jsstring \<Rightarrow> jsstring" where
  "cacheKey file field = path file @ str ''-'' @ field"

section \<open>String conversion\<close>

text \<open>\<^verbatim>\<open>`${v}`\<close>: the string conversion of a value.\<close>

fun toString :: "host \<Rightarrow> jsval \<Rightarrow> jsstring" where
  "toString h JUndefined = str ''undefined''"
| "toString h JNull = str ''null''"
| "toString h (JBool b) = (if b then str ''true'' else str ''false'')"
| "toString h (JNum w) = numberText h w"
| "toString h (JStr s) = s"
| "toString h (JObj r) = objectText h r"

section \<open>The header rewrite\<close>

text \<open>
  \<^verbatim>\<open>new RegExp(`^(${header})(.*)$`, "m")\<close> interprets the header as a pattern. For the
  headers whose only syntax character of the pattern language is the dot, the match is
  computed here: a dot matches any code unit but a line terminator, every other code unit
  matches itself. For any other header the pattern is handed to the constructor of the
  host, which compiles it or throws.
\<close>

definition syntaxCharacter :: "16 word \<Rightarrow> bool" where
  "syntaxCharacter c = (c \<in> set (str (''^$.*+?()[]{}|'' @ [CHR 0x5C])))"

definition plainPattern :: "jsstring \<Rightarrow> bool" where
  "plainPattern hdr = list_all (\<lambda>c. c = codeUnit CHR ''.'' \<or> \<not> syntaxCharacter c) hdr"

text \<open>Line terminators: line feed, carriage return, line separator, paragraph separator.\<close>

definition lineTerminator :: "16 word \<Rightarrow> bool" where
  "lineTerminator c = (c = 0x0A \<or> c = 0x0D \<or> c = 0x2028 \<or> c = 0x2029)"

text \<open>
  The first group \<^verbatim>\<open>(${header})\<close> matched at the beginning of a text: the text it takes
  and the text that follows.
\<close>

fun matchHeader :: "jsstring \<Rightarrow> jsstring \<Rightarrow> (jsstring \<times> jsstring) option" where
  "matchHeader [] rest = Some ([], rest)"
| "matchHeader (a # as) [] = None"
| "matchHeader (a # as) (c # cs) =
     (if (if a = codeUnit CHR ''.'' then \<not> lineTerminator c else a = c)
      then (case matchHeader as cs of
              None \<Rightarrow> None
            | Some (m, rest) \<Rightarrow> Some (c # m, rest))
      else None)"

text \<open>
  The search for the first match of such a pattern: the start positions are tried from left
  to right; \<^verbatim>\<open>^\<close> with the flag \<^verbatim>\<open>m\<close> holds at the start of the text and after a line
  terminator; \<^verbatim>\<open>(.*)\<close> takes the code units up to the next line terminator, where
  \<^verbatim>\<open>$\<close> holds.
\<close>

fun headerRegexExec :: "jsstring \<Rightarrow> bool \<Rightarrow> jsstring \<Rightarrow> jsstring \<Rightarrow> regex_match option" where
  "headerRegexExec hdr atLineStart pre rest =
     (case (if atLineStart then matchHeader hdr rest else None) of
        Some (m, r) \<Rightarrow>
          Some \<lparr>matchPre = pre,
                matchText = m @ takeWhile (\<lambda>c. \<not> lineTerminator c) r,
                matchGroups = [Some m, Some (takeWhile (\<lambda>c. \<not> lineTerminator c) r)],
                matchNamed = None,
                matchPost = dropWhile (\<lambda>c. \<not> lineTerminator c) r\<rparr>
      | None \<Rightarrow>
          (case rest of
             [] \<Rightarrow> None
           | c # cs \<Rightarrow> headerRegexExec hdr (lineTerminator c) (pre @ [c]) cs))"

text \<open>\<^verbatim>\<open>new RegExp(`^(${header})(.*)$`, "m")\<close>.\<close>

definition headerRegex :: "host \<Rightarrow> jsstring \<Rightarrow> (jsstring \<Rightarrow> regex_match option) option" where
  "headerRegex h hdr =
     (if plainPattern hdr then Some (headerRegexExec hdr True [])
      else newRegExp h (str ''^('' @ hdr @ str '')(.*)$''))"

definition isDigit :: "16 word \<Rightarrow> bool" where
  "isDigit c = (c \<in> set (str ''0123456789''))"

definition digitVal :: "16 word \<Rightarrow> nat" where
  "digitVal c = length (takeWhile (\<lambda>d. d \<noteq> c) (str ''0123456789''))"

text \<open>The text of a capture group; a group that took no part gives the empty text.\<close>

definition captureText :: "jsstring option list \<Rightarrow> nat \<Rightarrow> jsstring" where
  "captureText caps n = (case caps ! (n - 1) of None \<Rightarrow> [] | Some s \<Rightarrow> s)"

text \<open>The name up to the first \<^verbatim>\<open>>\<close> of a text, and the text after it.\<close>

fun upToClose :: "jsstring \<Rightarrow> (jsstring \<times> jsstring) option" where
  "upToClose [] = None"
| "upToClose (c # cs) =
     (if c = codeUnit CHR ''>'' then Some ([], cs)
      else (case upToClose cs of None \<Rightarrow> None | Some (n, r) \<Rightarrow> Some (c # n, r)))"

definition namedCaptureText :: "(jsstring \<times> jsstring option) list \<Rightarrow> jsstring \<Rightarrow> jsstring" where
  "namedCaptureText named n = (case map_of named n of Some (Some s) \<Rightarrow> s | _ \<Rightarrow> [])"

text \<open>
  The expansion of the replacement text (GetSubstitution): \<^verbatim>\<open>$$\<close>, \<^verbatim>\<open>$&\<close>,
  \<^verbatim>\<open>$`\<close>, \<^verbatim>\<open>$'\<close>, the group references \<^verbatim>\<open>$n\<close>, \<^verbatim>\<open>$nn\<close> and, when the pattern has
  named groups, \<^verbatim>\<open>$<name>\<close> are replaced; every other code unit is copied.
\<close>

function getSubstitution ::
  "jsstring \<Rightarrow> jsstring \<Rightarrow> jsstring \<Rightarrow> jsstring option list \<Rightarrow>
   (jsstring \<times> jsstring option) list option \<Rightarrow> jsstring \<Rightarrow> jsstring" where
  "getSubstitution matched pre post caps named [] = []"
| "getSubstitution matched pre post caps named [c] = [c]"
| "getSubstitution matched pre post caps named (c # d # t) =
     (if c \<noteq> codeUnit CHR ''$'' then c # getSubstitution matched pre post caps named (d # t)
      else if d = codeUnit CHR ''$'' then
        codeUnit CHR ''$'' # getSubstitution matched pre post caps named t
      else if d = codeUnit CHR ''&'' then matched @ getSubstitution matched pre post caps named t
      else if d = codeUnit CHR 0x60 then pre @ getSubstitution matched pre post caps named t
      else if d = codeUnit CHR 0x27 then post @ getSubstitution matched pre post caps named t
      else if isDigit d then
        (case t of
           e # t' \<Rightarrow>
             if isDigit e \<and> 10 * digitVal d + digitVal e \<le> length caps
             then (if 1 \<le> 10 * digitVal d + digitVal e
                   then captureText caps (10 * digitVal d + digitVal e)
                   else [c, d, e]) @ getSubstitution matched pre post caps named t'
             else (if 1 \<le> digitVal d \<and> digitVal d \<le> length caps
                   then captureText caps (digitVal d)
                   else [c, d]) @ getSubstitution matched pre post caps named t
         | [] \<Rightarrow>
             (if 1 \<le> digitVal d \<and> digitVal d \<le> length caps
              then captureText caps (digitVal d)
              else [c, d]))
      else if d = codeUnit CHR ''<'' then
        (case named of
           None \<Rightarrow> c # d # getSubstitution matched pre post caps named t
         | Some groups \<Rightarrow>
             (case upToClose t of
                None \<Rightarrow> c # d # getSubstitution matched pre post caps named t
              | Some (n, r) \<Rightarrow>
                  namedCaptureText groups n @ getSubstitution matched pre post caps named r))
      else c # getSubstitution matched pre post caps named (d # t))"
  by pat_completeness auto
termination
proof (relation "measure (\<lambda>(matched, pre, post, caps, named, t). length t)")
  have shorter: "length r < length t" if "upToClose t = Some (n, r)" for t n r
    using that
  proof (induction t arbitrary: n)
    case Nil
    then show ?case by simp
  next
    case (Cons c cs)
    then show ?case by (fastforce split: if_splits option.splits)
  qed
  fix matched pre post :: jsstring and caps named and c d :: "16 word" and t groups x n r
  assume "upToClose t = Some x" and "(n, r) = x"
  then show "((matched, pre, post, caps, named, r), (matched, pre, post, caps, named, c # d # t))
      \<in> measure (\<lambda>(matched, pre, post, caps, named, t). length t)"
    using shorter[of t n r] by simp
qed auto

definition replaceHeaderWithMetadataValue ::
  "host \<Rightarrow> jsstring \<Rightarrow> jsstring \<Rightarrow> jsval \<Rightarrow> failure + jsstring" where
  "replaceHeaderWithMetadataValue h content hdr valueToInsert =
     (case headerRegex h hdr of
        None \<Rightarrow> Inl (PatternSyntaxError hdr)
      | Some exec \<Rightarrow>
          (case exec content of
             None \<Rightarrow> Inr content
           | Some m \<Rightarrow>
               Inr (matchPre m
                    @ getSubstitution (matchText m) (matchPre m) (matchPost m)
                        (matchGroups m) (matchNamed m)
                        (str ''$1 '' @ toString h valueToInsert)
                    @ matchPost m)))"

section \<open>The baseline cache and the dispatcher\<close>

text \<open>
  \<^verbatim>\<open>this.lastMetadataValues[key]\<close>: an absent entry reads as \<^verbatim>\<open>undefined\<close>. No key of
  the cache is a property of \<^verbatim>\<open>Object.prototype\<close>, since every key contains a hyphen.
\<close>

definition previousValueOf :: "world \<Rightarrow> jsstring \<Rightarrow> jsval" where
  "previousValueOf s k = getProperty (lastMetadataValues s) k"

definition setLastMetadataValue :: "jsstring \<Rightarrow> jsval \<Rightarrow> world \<Rightarrow> world" where
  "setLastMetadataValue k v s = s\<lparr>lastMetadataValues := (lastMetadataValues s)(k \<mapsto> v)\<rparr>"

definition issue :: "event \<Rightarrow> world \<Rightarrow> world" where
  "issue e s = s\<lparr>trace := trace s @ [e]\<rparr>"

text \<open>The body of the loop of \<^verbatim>\<open>updateLastMetadataValues\<close>, for a group of either kind.\<close>

definition seedGroup :: "tfile \<Rightarrow> (jsstring \<rightharpoonup> jsval) \<Rightarrow> 'a group_scheme \<Rightarrow> world \<Rightarrow> world" where
  "seedGroup file metadata g s =
     (if active g \<and> truthy (getProperty metadata (watchedField g))
      then setLastMetadataValue (cacheKey file (watchedField g))
             (getProperty metadata (watchedField g)) s
      else s)"

fun seedGroups :: "tfile \<Rightarrow> (jsstring \<rightharpoonup> jsval) \<Rightarrow> 'a group_scheme list \<Rightarrow> world \<Rightarrow> world" where
  "seedGroups file metadata [] s = s"
| "seedGroups file metadata (g # gs) s = seedGroups file metadata gs (seedGroup file metadata g s)"

text \<open>
  \<^verbatim>\<open>updateLastMetadataValues\<close> iterates over
  \<^verbatim>\<open>[...this.settings.headerGroups, ...this.settings.commandGroups]\<close>: the header groups
  first, then the command groups.
\<close>

definition updateLastMetadataValues :: "host \<Rightarrow> settings \<Rightarrow> tfile \<Rightarrow> world \<Rightarrow> world" where
  "updateLastMetadataValues h st file s =
     (case frontmatter h (path file) of
        None \<Rightarrow> s
      | Some metadata \<Rightarrow>
          seedGroups file metadata (commandGroups st)
            (seedGroups file metadata (headerGroups st) s))"

definition onFileOpen :: "host \<Rightarrow> settings \<Rightarrow> tfile \<Rightarrow> world \<Rightarrow> world" where
  "onFileOpen h st file s = updateLastMetadataValues h st file s"

text \<open>
  The body of the loop of \<^verbatim>\<open>processHeaderGroups\<close>. A rejected \<^verbatim>\<open>vault.read\<close> (the
  document is not in the vault), a header that \<^verbatim>\<open>new RegExp\<close> rejects and a rejected
  \<^verbatim>\<open>vault.modify\<close> leave the function at that point: the result carries the failure and
  the state reached.
\<close>

definition headerGroupStep ::
  "host \<Rightarrow> tfile \<Rightarrow> (jsstring \<rightharpoonup> jsval) \<Rightarrow> header_group \<Rightarrow> world \<Rightarrow> failure option \<times> world" where
  "headerGroupStep h file metadata g s =
     (if active g \<and> truthy (getProperty metadata (watchedField g)) then
        (let currentValue = getProperty metadata (watchedField g);
             previousValue = previousValueOf s (cacheKey file (watchedField g))
         in if \<not> strictEq currentValue previousValue then
              (let s1 = issue (VaultRead (path file)) s
               in case vault s (path file) of
                    None \<Rightarrow> (Some (ReadFailed (path file)), s1)
                  | Some fileContent \<Rightarrow>
                      (case replaceHeaderWithMetadataValue h fileContent (header g) currentValue of
                         Inl e \<Rightarrow> (Some e, s1)
                       | Inr updatedContent \<Rightarrow>
                           (let s2 = issue (VaultModify (path file) updatedContent) s1
                            in if writable h (path file)
                               then (None,
                                     setLastMetadataValue (cacheKey file (watchedField g)) currentValue
                                       (s2\<lparr>vault := (vault s2)(path file \<mapsto> updatedContent)\<rparr>))
                               else (Some (ModifyFailed (path file)), s2))))
            else (None, s))
      else (None, s))"

fun processHeaderGroups ::
  "host \<Rightarrow> tfile \<Rightarrow> (jsstring \<rightharpoonup> jsval) \<Rightarrow> header_group list \<Rightarrow> world \<Rightarrow> failure option \<times> world" where
  "processHeaderGroups h file metadata [] s = (None, s)"
| "processHeaderGroups h file metadata (g # gs) s =
     (case headerGroupStep h file metadata g s of
        (None, s') \<Rightarrow> processHeaderGroups h file metadata gs s'
      | (Some e, s') \<Rightarrow> (Some e, s'))"

text \<open>The body of the loop of \<^verbatim>\<open>processCommandGroups\<close>.\<close>

definition commandGroupStep ::
  "host \<Rightarrow> tfile \<Rightarrow> (jsstring \<rightharpoonup> jsval) \<Rightarrow> command_group \<Rightarrow> world \<Rightarrow> failure option \<times> world" where
  "commandGroupStep h file metadata g s =
     (if active g \<and> truthy (getProperty metadata (watchedField g)) then
        (let currentValue = getProperty metadata (watchedField g);
             previousValue = previousValueOf s (cacheKey file (watchedField g))
         in if \<not> strictEq currentValue previousValue \<and> \<not> strictEq previousValue JUndefined then
              (let s1 = issue (ExecuteCommand (watchedField g) (command g)) s
               in if commandThrows h (command g)
                  then (Some (CommandFailed (command g)), s1)
                  else (None, setLastMetadataValue (cacheKey file (watchedField g)) currentValue s1))
            else (None, setLastMetadataValue (cacheKey file (watchedField g)) currentValue s))
      else (None, s))"

fun processCommandGroups ::
  "host \<Rightarrow> tfile \<Rightarrow> (jsstring \<rightharpoonup> jsval) \<Rightarrow> command_group list \<Rightarrow> world \<Rightarrow> failure option \<times> world" where
  "processCommandGroups h file metadata [] s = (None, s)"
| "processCommandGroups h file metadata (g # gs) s =
     (case commandGroupStep h file metadata g s of
        (None, s') \<Rightarrow> processCommandGroups h file metadata gs s'
      | (Some e, s') \<Rightarrow> (Some e, s'))"

definition onMetadataChanged :: "host \<Rightarrow> settings \<Rightarrow> tfile \<Rightarrow> world \<Rightarrow> failure option \<times> world" where
  "onMetadataChanged h st file s =
     (case frontmatter h (path file) of
        None \<Rightarrow> (None, s)
      | Some metadata \<Rightarrow>
          (case processHeaderGroups h file metadata (headerGroups st) s of
             (None, s') \<Rightarrow> processCommandGroups h file metadata (commandGroups st) s'
           | (Some e, s') \<Rightarrow> (Some e, s')))"

section \<open>Notions used in the statements\<close>

text \<open>The commands that the trace records for the groups watching a field.\<close>

definition isCommandFor :: "jsstring \<Rightarrow> event \<Rightarrow> bool" where
  "isCommandFor f e = (case e of ExecuteCommand f' c \<Rightarrow> f' = f | _ \<Rightarrow> False)"

definition commandsFor :: "jsstring \<Rightarrow> event list \<Rightarrow> event list" where
  "commandsFor f tr = filter (isCommandFor f) tr"

text \<open>The cache entry of a field is absent or holds the value of the snapshot.\<close>

definition baselineOrAbsent :: "tfile \<Rightarrow> (jsstring \<rightharpoonup> jsval) \<Rightarrow> jsstring \<Rightarrow> world \<Rightarrow> bool" where
  "baselineOrAbsent file md f s =
     (lastMetadataValues s (cacheKey file f) = None \<or>
      lastMetadataValues s (cacheKey file f) = Some (getProperty md f))"

text \<open>The settings without the groups that watch a field.\<close>

definition withoutField :: "jsstring \<Rightarrow> settings \<Rightarrow> settings" where
  "withoutField f st =
     \<lparr>headerGroups = filter (\<lambda>g. watchedField g \<noteq> f) (headerGroups st),
      commandGroups = filter (\<lambda>g. watchedField g \<noteq> f) (commandGroups st)\<rparr>"

text \<open>A header in which no code unit is a syntax character of the pattern language.\<close>

definition literalPattern :: "jsstring \<Rightarrow> bool" where
  "literalPattern hdr = list_all (\<lambda>c. \<not> syntaxCharacter c) hdr"

section \<open>Sample inputs\<close>

text \<open>
  The sample hosts give the text \<^verbatim>\<open>42\<close> for the number 42, reject the pattern built from
  the header \<^verbatim>\<open>(\<close> and find no match for any other pattern handed to them; the samples
  use them on such inputs only.
\<close>

definition noteFile :: tfile where
  "noteFile = \<lparr>path = str ''note.md''\<rparr>"

definition sampleRegExp :: "jsstring \<Rightarrow> (jsstring \<Rightarrow> regex_match option) option" where
  "sampleRegExp source = (if source = str ''^(()(.*)$'' then None else Some (\<lambda>content. None))"

definition hostWith :: "(jsstring \<rightharpoonup> jsval) \<Rightarrow> host" where
  "hostWith md =
     \<lparr>frontmatter = (\<lambda>p. Some md),
      numberText = (\<lambda>w. if w = 0x4045000000000000 then str ''42'' else str ''NaN''),
      objectText = (\<lambda>r. str ''[object Object]''),
      newRegExp = sampleRegExp,
      writable = (\<lambda>p. True), commandThrows = (\<lambda>c. False)\<rparr>"

definition readOnlyHostWith :: "(jsstring \<rightharpoonup> jsval) \<Rightarrow> host" where
  "readOnlyHostWith md = (hostWith md)\<lparr>writable := (\<lambda>p. False)\<rparr>"

definition throwingHostWith :: "(jsstring \<rightharpoonup> jsval) \<Rightarrow> host" where
  "throwingHostWith md = (hostWith md)\<lparr>commandThrows := (\<lambda>c. True)\<rparr>"

definition worldWith :: "(jsstring \<rightharpoonup> jsval) \<Rightarrow> jsstring \<Rightarrow> world" where
  "worldWith cache content =
     \<lparr>lastMetadataValues = cache, vault = [str ''note.md'' \<mapsto> content], trace = []\<rparr>"

definition headerRule :: "jsstring \<Rightarrow> jsstring \<Rightarrow> header_group" where
  "headerRule f hdr = \<lparr>watchedField = f, active = True, header = hdr\<rparr>"

definition commandRule :: "jsstring \<Rightarrow> jsstring \<Rightarrow> command_group" where
  "commandRule f c = \<lparr>watchedField = f, active = True, command = c\<rparr>"

section \<open>Basic facts\<close>

declare str_def [simp] codeUnit_def [simp]

lemmas world_ops = issue_def setLastMetadataValue_def previousValueOf_def getProperty_def

lemmas sample_defs = noteFile_def hostWith_def readOnlyHostWith_def throwingHostWith_def worldWith_def
  headerRule_def commandRule_def sampleRegExp_def str_def codeUnit_def

lemmas rewrite_defs = replaceHeaderWithMetadataValue_def headerRegex_def plainPattern_def
  syntaxCharacter_def lineTerminator_def isDigit_def digitVal_def captureText_def
  namedCaptureText_def str_def codeUnit_def

lemmas dispatch_defs = onMetadataChanged_def onFileOpen_def updateLastMetadataValues_def
  headerGroupStep_def commandGroupStep_def seedGroup_def cacheKey_def Let_def

lemma cacheKey_same_file [simp]: "cacheKey file f = cacheKey file f' \<longleftrightarrow> f = f'"
  by (simp add: cacheKey_def)

lemma strictEq_truthy_refl: "truthy v \<Longrightarrow> strictEq v v"
  by (cases v) simp_all

lemma truthy_not_undefined: "truthy v \<Longrightarrow> \<not> strictEq v JUndefined"
  by (cases v) simp_all

lemma strictEq_truthy_same: "truthy v \<Longrightarrow> strictEq v p \<Longrightarrow> p = v"
  by (cases v; cases p) auto

lemma strictEq_cached:
  "strictEq v (previousValueOf s k) \<Longrightarrow> truthy v \<Longrightarrow> lastMetadataValues s k = Some v"
  by (cases "lastMetadataValues s k")
     (auto simp: previousValueOf_def getProperty_def dest: strictEq_truthy_same truthy_not_undefined)

lemma isCommandFor_simps [simp]:
  "isCommandFor f (VaultRead p) = False"
  "isCommandFor f (VaultModify p c) = False"
  "isCommandFor f (ExecuteCommand f' c) = (f' = f)"
  by (simp_all add: isCommandFor_def)

lemma commandsFor_simps [simp]:
  "commandsFor f [] = []"
  "commandsFor f (e # tr) = (if isCommandFor f e then e # commandsFor f tr else commandsFor f tr)"
  "commandsFor f (tr @ tr') = commandsFor f tr @ commandsFor f tr'"
  by (simp_all add: commandsFor_def)

subsection \<open>What one step does to the cache and to the trace\<close>

lemma headerGroupStep_commands:
  "headerGroupStep h file md g s = (r, s') \<Longrightarrow> commandsFor f (trace s') = commandsFor f (trace s)"
  by (auto simp: headerGroupStep_def Let_def issue_def setLastMetadataValue_def
           split: if_splits option.splits sum.splits)

lemma headerGroupStep_cache:
  "headerGroupStep h file md g s = (r, s') \<Longrightarrow>
     lastMetadataValues s' = lastMetadataValues s \<or>
     (active g \<and> truthy (getProperty md (watchedField g)) \<and>
      lastMetadataValues s' =
        (lastMetadataValues s)(cacheKey file (watchedField g) \<mapsto> getProperty md (watchedField g)))"
  by (auto simp: headerGroupStep_def Let_def issue_def setLastMetadataValue_def
           split: if_splits option.splits sum.splits)

lemma commandGroupStep_cache:
  "commandGroupStep h file md g s = (r, s') \<Longrightarrow>
     lastMetadataValues s' = lastMetadataValues s \<or>
     (active g \<and> truthy (getProperty md (watchedField g)) \<and>
      lastMetadataValues s' =
        (lastMetadataValues s)(cacheKey file (watchedField g) \<mapsto> getProperty md (watchedField g)))"
  by (auto simp: commandGroupStep_def Let_def issue_def setLastMetadataValue_def
           split: if_splits option.splits sum.splits)

lemma headerGroupStep_trace:
  "headerGroupStep h file md g s = (r, s') \<Longrightarrow> \<exists>tr. trace s' = trace s @ tr"
  by (auto simp: headerGroupStep_def Let_def issue_def setLastMetadataValue_def
           split: if_splits option.splits sum.splits)

lemma commandGroupStep_trace:
  "commandGroupStep h file md g s = (r, s') \<Longrightarrow> \<exists>tr. trace s' = trace s @ tr"
  by (auto simp: commandGroupStep_def Let_def issue_def setLastMetadataValue_def
           split: if_splits option.splits)

lemma headerGroupStep_keeps:
  assumes "headerGroupStep h file md g s = (r, s')"
    and "lastMetadataValues s (cacheKey file f) = Some (getProperty md f)"
  shows "lastMetadataValues s' (cacheKey file f) = Some (getProperty md f)"
  using headerGroupStep_cache[OF assms(1)] assms(2) by auto

lemma commandGroupStep_keeps:
  assumes "commandGroupStep h file md g s = (r, s')"
    and "lastMetadataValues s (cacheKey file f) = Some (getProperty md f)"
  shows "lastMetadataValues s' (cacheKey file f) = Some (getProperty md f)"
  using commandGroupStep_cache[OF assms(1)] assms(2) by auto

lemma headerGroupStep_other:
  "headerGroupStep h file md g s = (r, s') \<Longrightarrow> \<not> (active g \<and> watchedField g = f) \<Longrightarrow>
     lastMetadataValues s' (cacheKey file f) = lastMetadataValues s (cacheKey file f)"
  by (drule headerGroupStep_cache) auto

lemma commandGroupStep_other:
  "commandGroupStep h file md g s = (r, s') \<Longrightarrow> \<not> (active g \<and> watchedField g = f) \<Longrightarrow>
     lastMetadataValues s' (cacheKey file f) = lastMetadataValues s (cacheKey file f)"
  by (drule commandGroupStep_cache) auto

lemma seedGroup_other:
  "\<not> (active g \<and> watchedField g = f) \<Longrightarrow>
     lastMetadataValues (seedGroup file md g s) (cacheKey file f) = lastMetadataValues s (cacheKey file f)"
  by (auto simp: seedGroup_def setLastMetadataValue_def)

subsection \<open>The two passes\<close>

text \<open>
  Both passes run a step for each group in turn and stop at the first failure, so a property
  that every step preserves is preserved by a pass.
\<close>

lemma processHeaderGroups_preserves:
  assumes step: "\<And>g s r s'. g \<in> set gs \<Longrightarrow> P s \<Longrightarrow> headerGroupStep h file md g s = (r, s') \<Longrightarrow> P s'"
    and "processHeaderGroups h file md gs s = (r, s')" and "P s"
  shows "P s'"
  using assms
proof (induction gs arbitrary: s)
  case Nil
  then show ?case by simp
next
  case (Cons g gs)
  obtain r1 s1 where st: "headerGroupStep h file md g s = (r1, s1)" by force
  have p1: "P s1" using Cons.prems(1)[OF _ Cons.prems(3) st] by simp
  show ?case
  proof (cases r1)
    case None
    with Cons.prems(2) st have rest: "processHeaderGroups h file md gs s1 = (r, s')" by simp
    show ?thesis
    proof (rule Cons.IH[OF _ rest p1])
      fix g' x r' x'
      assume "g' \<in> set gs" and "P x" and "headerGroupStep h file md g' x = (r', x')"
      then show "P x'" using Cons.prems(1)[of g' x r' x'] by simp
    qed
  next
    case (Some e)
    with Cons.prems(2) st p1 show ?thesis by auto
  qed
qed

lemma processCommandGroups_preserves:
  assumes step: "\<And>g s r s'. g \<in> set gs \<Longrightarrow> P s \<Longrightarrow> commandGroupStep h file md g s = (r, s') \<Longrightarrow> P s'"
    and "processCommandGroups h file md gs s = (r, s')" and "P s"
  shows "P s'"
  using assms
proof (induction gs arbitrary: s)
  case Nil
  then show ?case by simp
next
  case (Cons g gs)
  obtain r1 s1 where st: "commandGroupStep h file md g s = (r1, s1)" by force
  have p1: "P s1" using Cons.prems(1)[OF _ Cons.prems(3) st] by simp
  show ?case
  proof (cases r1)
    case None
    with Cons.prems(2) st have rest: "processCommandGroups h file md gs s1 = (r, s')" by simp
    show ?thesis
    proof (rule Cons.IH[OF _ rest p1])
      fix g' x r' x'
      assume "g' \<in> set gs" and "P x" and "commandGroupStep h file md g' x = (r', x')"
      then show "P x'" using Cons.prems(1)[of g' x r' x'] by simp
    qed
  next
    case (Some e)
    with Cons.prems(2) st p1 show ?thesis by auto
  qed
qed

lemma processHeaderGroups_append:
  "processHeaderGroups h file md (gs1 @ gs2) s =
     (case processHeaderGroups h file md gs1 s of
        (None, s1) \<Rightarrow> processHeaderGroups h file md gs2 s1
      | (Some e, s1) \<Rightarrow> (Some e, s1))"
  by (induction gs1 arbitrary: s) (auto split: prod.splits option.splits)

lemma processCommandGroups_append:
  "processCommandGroups h file md (gs1 @ gs2) s =
     (case processCommandGroups h file md gs1 s of
        (None, s1) \<Rightarrow> processCommandGroups h file md gs2 s1
      | (Some e, s1) \<Rightarrow> (Some e, s1))"
  by (induction gs1 arbitrary: s) (auto split: prod.splits option.splits)

lemma processHeaderGroups_trace:
  assumes "processHeaderGroups h file md gs s = (r, s')"
  shows "\<exists>tr. trace s' = trace s @ tr"
proof -
  have "\<exists>tr. trace s' = trace s @ tr"
    by (rule processHeaderGroups_preserves[where P = "\<lambda>x. \<exists>tr. trace x = trace s @ tr", OF _ assms])
       (auto dest: headerGroupStep_trace)
  then show ?thesis .
qed

lemma processCommandGroups_trace:
  assumes "processCommandGroups h file md gs s = (r, s')"
  shows "\<exists>tr. trace s' = trace s @ tr"
proof -
  have "\<exists>tr. trace s' = trace s @ tr"
    by (rule processCommandGroups_preserves[where P = "\<lambda>x. \<exists>tr. trace x = trace s @ tr", OF _ assms])
       (auto dest: commandGroupStep_trace)
  then show ?thesis .
qed

lemma processHeaderGroups_keeps:
  assumes "processHeaderGroups h file md gs s = (r, s')"
    and "lastMetadataValues s (cacheKey file f) = Some (getProperty md f)"
  shows "lastMetadataValues s' (cacheKey file f) = Some (getProperty md f)"
  by (rule processHeaderGroups_preserves[
        where P = "\<lambda>x. lastMetadataValues x (cacheKey file f) = Some (getProperty md f)", OF _ assms])
     (rule headerGroupStep_keeps)

lemma processCommandGroups_keeps:
  assumes "processCommandGroups h file md gs s = (r, s')"
    and "lastMetadataValues s (cacheKey file f) = Some (getProperty md f)"
  shows "lastMetadataValues s' (cacheKey file f) = Some (getProperty md f)"
  by (rule processCommandGroups_preserves[
        where P = "\<lambda>x. lastMetadataValues x (cacheKey file f) = Some (getProperty md f)", OF _ assms])
     (rule commandGroupStep_keeps)

lemma processHeaderGroups_other:
  assumes "processHeaderGroups h file md gs s = (r, s')"
    and "\<forall>g\<in>set gs. \<not> (active g \<and> watchedField g = f)"
  shows "lastMetadataValues s' (cacheKey file f) = lastMetadataValues s (cacheKey file f)"
  by (rule processHeaderGroups_preserves[
        where P = "\<lambda>x. lastMetadataValues x (cacheKey file f) = lastMetadataValues s (cacheKey file f)",
        OF _ assms(1)])
     (use assms(2) in \<open>auto dest: headerGroupStep_other\<close>)

lemma processCommandGroups_other:
  assumes "processCommandGroups h file md gs s = (r, s')"
    and "\<forall>g\<in>set gs. \<not> (active g \<and> watchedField g = f)"
  shows "lastMetadataValues s' (cacheKey file f) = lastMetadataValues s (cacheKey file f)"
  by (rule processCommandGroups_preserves[
        where P = "\<lambda>x. lastMetadataValues x (cacheKey file f) = lastMetadataValues s (cacheKey file f)",
        OF _ assms(1)])
     (use assms(2) in \<open>auto dest: commandGroupStep_other\<close>)

lemma seedGroups_other:
  "\<forall>g\<in>set gs. \<not> (active g \<and> watchedField g = f) \<Longrightarrow>
     lastMetadataValues (seedGroups file md gs s) (cacheKey file f) = lastMetadataValues s (cacheKey file f)"
  by (induction gs arbitrary: s) (simp_all add: seedGroup_other)

subsection \<open>First observation\<close>

lemma headerGroupStep_baselineOrAbsent:
  "headerGroupStep h file md g s = (r, s') \<Longrightarrow> baselineOrAbsent file md f s \<Longrightarrow>
     baselineOrAbsent file md f s'"
  by (drule headerGroupStep_cache) (auto simp: baselineOrAbsent_def split: if_splits)

lemma commandGroupStep_suppressed:
  assumes "commandGroupStep h file md g s = (r, s')" and "baselineOrAbsent file md f s"
  shows "commandsFor f (trace s') = commandsFor f (trace s) \<and> baselineOrAbsent file md f s'"
proof (cases "watchedField g = f")
  case True
  with assms show ?thesis
    by (auto simp: commandGroupStep_def Let_def world_ops baselineOrAbsent_def strictEq_truthy_refl
             split: if_splits option.splits)
next
  case False
  with assms show ?thesis
    by (auto simp: commandGroupStep_def Let_def world_ops baselineOrAbsent_def
             split: if_splits option.splits)
qed

lemma commandGroupStep_seeds:
  assumes "commandGroupStep h file md g s = (None, s')"
    and "active g" and "truthy (getProperty md (watchedField g))"
  shows "lastMetadataValues s' (cacheKey file (watchedField g)) = Some (getProperty md (watchedField g))"
  using assms
  by (auto simp: commandGroupStep_def Let_def world_ops split: if_splits)

lemma processHeaderGroups_first_pass:
  assumes "processHeaderGroups h file md gs s = (r, s')" and "baselineOrAbsent file md f s"
  shows "commandsFor f (trace s') = commandsFor f (trace s) \<and> baselineOrAbsent file md f s'"
proof (rule processHeaderGroups_preserves[
        where P = "\<lambda>x. commandsFor f (trace x) = commandsFor f (trace s) \<and> baselineOrAbsent file md f x",
        OF _ assms(1)])
  fix g x r' x'
  assume st: "headerGroupStep h file md g x = (r', x')"
    and p: "commandsFor f (trace x) = commandsFor f (trace s) \<and> baselineOrAbsent file md f x"
  from headerGroupStep_commands[OF st, of f] headerGroupStep_baselineOrAbsent[OF st, of f] p
  show "commandsFor f (trace x') = commandsFor f (trace s) \<and> baselineOrAbsent file md f x'"
    by simp
next
  from assms(2) show "commandsFor f (trace s) = commandsFor f (trace s) \<and> baselineOrAbsent file md f s"
    by simp
qed

lemma processCommandGroups_suppressed:
  assumes "processCommandGroups h file md gs s = (r, s')" and "baselineOrAbsent file md f s"
  shows "commandsFor f (trace s') = commandsFor f (trace s) \<and> baselineOrAbsent file md f s'"
proof (rule processCommandGroups_preserves[
        where P = "\<lambda>x. commandsFor f (trace x) = commandsFor f (trace s) \<and> baselineOrAbsent file md f x",
        OF _ assms(1)])
  fix g x r' x'
  assume st: "commandGroupStep h file md g x = (r', x')"
    and p: "commandsFor f (trace x) = commandsFor f (trace s) \<and> baselineOrAbsent file md f x"
  from commandGroupStep_suppressed[OF st, of f] p
  show "commandsFor f (trace x') = commandsFor f (trace s) \<and> baselineOrAbsent file md f x'"
    by simp
next
  from assms(2) show "commandsFor f (trace s) = commandsFor f (trace s) \<and> baselineOrAbsent file md f s"
    by simp
qed

lemma processCommandGroups_seeds:
  assumes "processCommandGroups h file md gs s = (None, s')"
    and "g \<in> set gs" and "active g" and "truthy (getProperty md (watchedField g))"
  shows "lastMetadataValues s' (cacheKey file (watchedField g)) = Some (getProperty md (watchedField g))"
proof -
  from assms(2) obtain gs1 gs2 where gs: "gs = gs1 @ g # gs2"
    by (auto dest: split_list)
  obtain r1 s1 where p1: "processCommandGroups h file md gs1 s = (r1, s1)" by force
  obtain r2 s2 where p2: "commandGroupStep h file md g s1 = (r2, s2)" by force
  from assms(1) gs p1 have r1: "r1 = None"
    by (cases r1) (simp_all add: processCommandGroups_append)
  with assms(1) gs p1 p2 have r2: "r2 = None"
    by (cases r2) (simp_all add: processCommandGroups_append)
  with assms(1) gs p1 p2 r1 have p3: "processCommandGroups h file md gs2 s2 = (None, s')"
    by (simp add: processCommandGroups_append)
  from p2 r2 have "commandGroupStep h file md g s1 = (None, s2)" by simp
  from commandGroupStep_seeds[OF this assms(3,4)]
  have "lastMetadataValues s2 (cacheKey file (watchedField g)) = Some (getProperty md (watchedField g))" .
  from processCommandGroups_keeps[OF p3 this] show ?thesis .
qed

text \<open>
  C1, as the code has it. Let an active command group watch a field whose value in the
  snapshot is truthy, and let the baseline cache hold no entry for the document and that
  field when the metadata change is dispatched. Then the dispatch issues no command for the
  field; and when the dispatch runs to its end, no reaction having failed, the cache entry
  is the value of the snapshot.
\<close>

theorem first_observation_suppressed:
  assumes "frontmatter h (path file) = Some metadata"
    and "g \<in> set (commandGroups st)" and "active g"
    and "truthy (getProperty metadata (watchedField g))"
    and "lastMetadataValues s (cacheKey file (watchedField g)) = None"
    and "onMetadataChanged h st file s = (r, s')"
  shows "commandsFor (watchedField g) (trace s') = commandsFor (watchedField g) (trace s) \<and>
         (r = None \<longrightarrow>
            lastMetadataValues s' (cacheKey file (watchedField g))
              = Some (getProperty metadata (watchedField g)))"
proof -
  let ?f = "watchedField g"
  have b0: "baselineOrAbsent file metadata ?f s"
    using assms(5) by (simp add: baselineOrAbsent_def)
  obtain r1 s1 where hp: "processHeaderGroups h file metadata (headerGroups st) s = (r1, s1)"
    by force
  note a = processHeaderGroups_first_pass[OF hp b0]
  show ?thesis
  proof (cases r1)
    case None
    with assms(1,6) hp
    have cp: "processCommandGroups h file metadata (commandGroups st) s1 = (r, s')"
      by (simp add: onMetadataChanged_def)
    have "lastMetadataValues s' (cacheKey file ?f) = Some (getProperty metadata ?f)" if "r = None"
      using processCommandGroups_seeds[OF _ assms(2,3,4)] cp that by simp
    with processCommandGroups_suppressed[OF cp conjunct2[OF a]] a show ?thesis by simp
  next
    case (Some e)
    with assms(1,6) hp have "r = Some e" and "s' = s1"
      by (simp_all add: onMetadataChanged_def)
    with a show ?thesis by simp
  qed
qed

theorem first_observation_suppressed_witness:
  "commandsFor (str ''status'')
     (trace (snd (onMetadataChanged (hostWith [str ''status'' \<mapsto> JStr (str ''done'')])
        \<lparr>headerGroups = [headerRule (str ''status'') (str ''## Status'')],
         commandGroups = [commandRule (str ''status'') (str ''app:reload'')]\<rparr>
        noteFile (worldWith Map.empty (str ''## Status open''))))) = [] \<and>
   lastMetadataValues (snd (onMetadataChanged (hostWith [str ''status'' \<mapsto> JStr (str ''done'')])
        \<lparr>headerGroups = [headerRule (str ''status'') (str ''## Status'')],
         commandGroups = [commandRule (str ''status'') (str ''app:reload'')]\<rparr>
        noteFile (worldWith Map.empty (str ''## Status open''))))
     (cacheKey noteFile (str ''status'')) = Some (JStr (str ''done''))"
proof -
  let ?md = "[str ''status'' \<mapsto> JStr (str ''done'')]"
  let ?h = "hostWith ?md"
  let ?st = "\<lparr>headerGroups = [headerRule (str ''status'') (str ''## Status'')],
         commandGroups = [commandRule (str ''status'') (str ''app:reload'')]\<rparr>"
  let ?s = "worldWith Map.empty (str ''## Status open'')"
  let ?g = "commandRule (str ''status'') (str ''app:reload'')"
  let ?res = "onMetadataChanged ?h ?st noteFile ?s"
  have 1: "frontmatter ?h (path noteFile) = Some ?md"
    by (simp add: sample_defs)
  have 2: "?g \<in> set (commandGroups ?st)" by simp
  have 3: "active ?g" by (simp add: sample_defs)
  have 4: "truthy (getProperty ?md (watchedField ?g))"
    by (simp add: sample_defs getProperty_def)
  have 5: "lastMetadataValues ?s (cacheKey noteFile (watchedField ?g)) = None"
    by (simp add: sample_defs)
  have 6: "?res = (fst ?res, snd ?res)" by simp
  have 7: "fst ?res = None"
    by (simp add: dispatch_defs world_ops sample_defs rewrite_defs)
  have 8: "watchedField ?g = str ''status''" by (simp add: sample_defs)
  have 9: "trace ?s = []" by (simp add: sample_defs)
  have 10: "getProperty ?md (str ''status'') = JStr (str ''done'')"
    by (simp add: getProperty_def)
  from first_observation_suppressed[OF 1 2 3 4 5 6] 7
  show ?thesis unfolding 8 9 10 by simp
qed

text \<open>
  C1 as stated fails in its second half when a reaction fails before the command group is
  reached: the document is not in the vault, the read of the header group is rejected, the
  dispatch ends there and the cache entry of the field stays absent.
\<close>

theorem first_observation_not_seeded_after_failure:
  "onMetadataChanged (hostWith [str ''status'' \<mapsto> JStr (str ''done'')])
     \<lparr>headerGroups = [headerRule (str ''status'') (str ''## Status'')],
      commandGroups = [commandRule (str ''status'') (str ''app:reload'')]\<rparr>
     \<lparr>path = str ''gone.md''\<rparr> (worldWith Map.empty (str ''## Status open''))
   = (Some (ReadFailed (str ''gone.md'')),
      \<lparr>lastMetadataValues = Map.empty,
       vault = [str ''note.md'' \<mapsto> str ''## Status open''],
       trace = [VaultRead (str ''gone.md'')]\<rparr>)"
  by (simp add: dispatch_defs world_ops sample_defs)

subsection \<open>Unchanged values\<close>

lemma headerGroupStep_unchanged:
  assumes "active g \<and> truthy (getProperty md (watchedField g)) \<longrightarrow>
           strictEq (getProperty md (watchedField g))
             (previousValueOf s (cacheKey file (watchedField g)))"
  shows "headerGroupStep h file md g s = (None, s)"
  using assms by (simp add: headerGroupStep_def Let_def)

lemma commandGroupStep_unchanged:
  assumes "active g \<and> truthy (getProperty md (watchedField g)) \<longrightarrow>
           strictEq (getProperty md (watchedField g))
             (previousValueOf s (cacheKey file (watchedField g)))"
  shows "commandGroupStep h file md g s = (None, s)"
proof (cases "active g \<and> truthy (getProperty md (watchedField g))")
  case True
  with assms have eq: "strictEq (getProperty md (watchedField g))
      (previousValueOf s (cacheKey file (watchedField g)))"
    by simp
  from strictEq_cached[OF eq] True
  have "lastMetadataValues s (cacheKey file (watchedField g)) = Some (getProperty md (watchedField g))"
    by simp
  then have "(lastMetadataValues s)(cacheKey file (watchedField g) \<mapsto> getProperty md (watchedField g))
      = lastMetadataValues s"
    by (rule map_upd_triv)
  with True eq show ?thesis
    by (simp add: commandGroupStep_def Let_def setLastMetadataValue_def)
next
  case False
  then show ?thesis by (auto simp add: commandGroupStep_def)
qed

lemma processHeaderGroups_unchanged:
  "\<forall>g\<in>set gs. active g \<and> truthy (getProperty md (watchedField g)) \<longrightarrow>
       strictEq (getProperty md (watchedField g)) (previousValueOf s (cacheKey file (watchedField g)))
   \<Longrightarrow> processHeaderGroups h file md gs s = (None, s)"
  by (induction gs) (simp_all add: headerGroupStep_unchanged)

lemma processCommandGroups_unchanged:
  "\<forall>g\<in>set gs. active g \<and> truthy (getProperty md (watchedField g)) \<longrightarrow>
       strictEq (getProperty md (watchedField g)) (previousValueOf s (cacheKey file (watchedField g)))
   \<Longrightarrow> processCommandGroups h file md gs s = (None, s)"
  by (induction gs) (simp_all add: commandGroupStep_unchanged)

text \<open>
  C3. Idempotence of the dispatch. When, for every active group of either kind whose
  watched field is truthy in the snapshot, the value of the snapshot is strictly equal to
  the cached baseline, the dispatch returns without a failure and leaves the whole state as
  it was: no call is added to the trace, the vault and every cache entry keep their value.
\<close>

theorem dispatch_idempotent:
  assumes "frontmatter h (path file) = Some metadata"
    and "\<forall>g\<in>set (headerGroups st). active g \<and> truthy (getProperty metadata (watchedField g)) \<longrightarrow>
           strictEq (getProperty metadata (watchedField g))
             (previousValueOf s (cacheKey file (watchedField g)))"
    and "\<forall>g\<in>set (commandGroups st). active g \<and> truthy (getProperty metadata (watchedField g)) \<longrightarrow>
           strictEq (getProperty metadata (watchedField g))
             (previousValueOf s (cacheKey file (watchedField g)))"
  shows "onMetadataChanged h st file s = (None, s)"
  using assms
  by (simp add: onMetadataChanged_def processHeaderGroups_unchanged processCommandGroups_unchanged)

theorem dispatch_idempotent_witness:
  "onMetadataChanged (hostWith [str ''status'' \<mapsto> JStr (str ''done'')])
     \<lparr>headerGroups = [headerRule (str ''status'') (str ''## Status'')],
      commandGroups = [commandRule (str ''status'') (str ''app:reload'')]\<rparr>
     noteFile (worldWith [str ''note.md-status'' \<mapsto> JStr (str ''done'')] (str ''## Status''))
   = (None, worldWith [str ''note.md-status'' \<mapsto> JStr (str ''done'')] (str ''## Status''))"
proof -
  let ?md = "[str ''status'' \<mapsto> JStr (str ''done'')]"
  let ?st = "\<lparr>headerGroups = [headerRule (str ''status'') (str ''## Status'')],
      commandGroups = [commandRule (str ''status'') (str ''app:reload'')]\<rparr>"
  let ?s = "worldWith [str ''note.md-status'' \<mapsto> JStr (str ''done'')] (str ''## Status'')"
  have 1: "frontmatter (hostWith ?md) (path noteFile) = Some ?md"
    by (simp add: sample_defs)
  have 2: "\<forall>g\<in>set (headerGroups ?st). active g \<and> truthy (getProperty ?md (watchedField g)) \<longrightarrow>
           strictEq (getProperty ?md (watchedField g))
             (previousValueOf ?s (cacheKey noteFile (watchedField g)))"
    by (simp add: sample_defs world_ops cacheKey_def)
  have 3: "\<forall>g\<in>set (commandGroups ?st). active g \<and> truthy (getProperty ?md (watchedField g)) \<longrightarrow>
           strictEq (getProperty ?md (watchedField g))
             (previousValueOf ?s (cacheKey noteFile (watchedField g)))"
    by (simp add: sample_defs world_ops cacheKey_def)
  from dispatch_idempotent[OF 1 2 3] show ?thesis .
qed

subsection \<open>Groups that are skipped\<close>

lemma headerGroupStep_skip:
  "\<not> truthy (getProperty md (watchedField g)) \<Longrightarrow> headerGroupStep h file md g s = (None, s)"
  by (simp add: headerGroupStep_def)

lemma commandGroupStep_skip:
  "\<not> truthy (getProperty md (watchedField g)) \<Longrightarrow> commandGroupStep h file md g s = (None, s)"
  by (simp add: commandGroupStep_def)

lemma seedGroup_skip:
  "\<not> truthy (getProperty md (watchedField g)) \<Longrightarrow> seedGroup file md g s = s"
  by (simp add: seedGroup_def)

lemma processHeaderGroups_filter:
  assumes "\<not> truthy (getProperty md f)"
  shows "processHeaderGroups h file md (filter (\<lambda>g. watchedField g \<noteq> f) gs) s
       = processHeaderGroups h file md gs s"
  using assms
  by (induction gs arbitrary: s) (auto simp: headerGroupStep_skip split: prod.splits option.splits)

lemma processCommandGroups_filter:
  assumes "\<not> truthy (getProperty md f)"
  shows "processCommandGroups h file md (filter (\<lambda>g. watchedField g \<noteq> f) gs) s
       = processCommandGroups h file md gs s"
  using assms
  by (induction gs arbitrary: s) (auto simp: commandGroupStep_skip split: prod.splits option.splits)

lemma seedGroups_filter:
  assumes "\<not> truthy (getProperty md f)"
  shows "seedGroups file md (filter (\<lambda>g. watchedField g \<noteq> f) gs) s = seedGroups file md gs s"
  using assms by (induction gs arbitrary: s) (auto simp: seedGroup_skip)

text \<open>
  C6, as the code has it. The code has no test for an empty watched field: a group is
  skipped when the snapshot has no truthy value under the name it watches. So when the
  snapshot has no truthy value under the empty name, the groups with an empty watched
  field, active or not, take no part in a dispatch nor in the seeding on open: both give the
  result they give for the settings without these groups.
\<close>

theorem empty_watched_field_skipped:
  assumes "frontmatter h (path file) = Some metadata"
    and "\<not> truthy (getProperty metadata [])"
  shows "onMetadataChanged h st file s = onMetadataChanged h (withoutField [] st) file s \<and>
         onFileOpen h st file s = onFileOpen h (withoutField [] st) file s"
  using assms
  by (simp add: onMetadataChanged_def onFileOpen_def updateLastMetadataValues_def withoutField_def
        processHeaderGroups_filter processCommandGroups_filter seedGroups_filter
      split: prod.splits option.splits)

theorem empty_watched_field_skipped_witness:
  "onMetadataChanged (hostWith [str ''status'' \<mapsto> JStr (str ''done'')])
     \<lparr>headerGroups = [headerRule [] (str ''## Status'')], commandGroups = [commandRule [] (str ''app:reload'')]\<rparr>
     noteFile (worldWith [str ''note.md-'' \<mapsto> JStr (str ''old'')] (str ''## Status''))
   = (None, worldWith [str ''note.md-'' \<mapsto> JStr (str ''old'')] (str ''## Status'')) \<and>
   onFileOpen (hostWith [str ''status'' \<mapsto> JStr (str ''done'')])
     \<lparr>headerGroups = [headerRule [] (str ''## Status'')], commandGroups = [commandRule [] (str ''app:reload'')]\<rparr>
     noteFile (worldWith [str ''note.md-'' \<mapsto> JStr (str ''old'')] (str ''## Status''))
   = worldWith [str ''note.md-'' \<mapsto> JStr (str ''old'')] (str ''## Status'')"
proof -
  let ?md = "[str ''status'' \<mapsto> JStr (str ''done'')]"
  have 1: "frontmatter (hostWith ?md) (path noteFile) = Some ?md"
    by (simp add: sample_defs)
  have 2: "\<not> truthy (getProperty ?md [])"
    by (simp add: getProperty_def)
  let ?st = "\<lparr>headerGroups = [headerRule [] (str ''## Status'')],
              commandGroups = [commandRule [] (str ''app:reload'')]\<rparr>"
  let ?s = "worldWith [str ''note.md-'' \<mapsto> JStr (str ''old'')] (str ''## Status'')"
  have 3: "onMetadataChanged (hostWith ?md) (withoutField [] ?st) noteFile ?s = (None, ?s)"
    by (simp add: withoutField_def sample_defs onMetadataChanged_def)
  have 4: "onFileOpen (hostWith ?md) (withoutField [] ?st) noteFile ?s = ?s"
    by (simp add: withoutField_def sample_defs onFileOpen_def updateLastMetadataValues_def)
  from empty_watched_field_skipped[OF 1 2, of ?st ?s] 3 4 show ?thesis
    by simp
qed

text \<open>
  C6 as stated fails: front-matter may hold a value under the empty name, and then an
  active command group with an empty watched field fires like any other.
\<close>

theorem empty_watched_field_fires:
  "onMetadataChanged (hostWith [[] \<mapsto> JStr (str ''new'')])
     \<lparr>headerGroups = [], commandGroups = [commandRule [] (str ''app:reload'')]\<rparr>
     noteFile (worldWith [str ''note.md-'' \<mapsto> JStr (str ''old'')] (str ''text''))
   = (None, \<lparr>lastMetadataValues = [str ''note.md-'' \<mapsto> JStr (str ''new'')],
             vault = [str ''note.md'' \<mapsto> str ''text''],
             trace = [ExecuteCommand [] (str ''app:reload'')]\<rparr>)"
  by (simp add: dispatch_defs world_ops sample_defs)

subsection \<open>The cache key\<close>

lemma split_at_last_hyphen:
  assumes "(codeUnit CHR ''-'') \<notin> set f"
  shows "takeWhile (\<lambda>c. c \<noteq> (codeUnit CHR ''-'')) (rev (p @ (str ''-'') @ f)) = rev f"
proof -
  have "takeWhile (\<lambda>c. c \<noteq> (codeUnit CHR ''-'')) (rev f @ (codeUnit CHR ''-'') # rev p)
      = rev f @ takeWhile (\<lambda>c. c \<noteq> (codeUnit CHR ''-'')) (codeUnit CHR ''-'' # rev p)"
    by (rule takeWhile_append2) (use assms in auto)
  then show ?thesis by simp
qed

text \<open>
  C8, as the code has it. The key is the path, a hyphen and the field name. Two pairs of
  a document path and a field name in which neither field name contains a hyphen have the
  same key exactly when they are the same pair. (Within one document the keys of two
  fields always differ, by \<open>cacheKey_same_file\<close>.)
\<close>

theorem cacheKey_injective_without_hyphen:
  assumes "(codeUnit CHR ''-'') \<notin> set f1" and "(codeUnit CHR ''-'') \<notin> set f2"
  shows "(cacheKey file1 f1 = cacheKey file2 f2) = (path file1 = path file2 \<and> f1 = f2)"
proof
  assume "cacheKey file1 f1 = cacheKey file2 f2"
  then have eq: "path file1 @ (str ''-'') @ f1 = path file2 @ (str ''-'') @ f2"
    by (simp add: cacheKey_def)
  then have "takeWhile (\<lambda>c. c \<noteq> (codeUnit CHR ''-'')) (rev (path file1 @ (str ''-'') @ f1))
           = takeWhile (\<lambda>c. c \<noteq> (codeUnit CHR ''-'')) (rev (path file2 @ (str ''-'') @ f2))"
    by simp
  with split_at_last_hyphen[OF assms(1), of "path file1"]
       split_at_last_hyphen[OF assms(2), of "path file2"]
  have "rev f1 = rev f2" by simp
  then have "f1 = f2" by simp
  with eq show "path file1 = path file2 \<and> f1 = f2" by simp
next
  assume "path file1 = path file2 \<and> f1 = f2"
  then show "cacheKey file1 f1 = cacheKey file2 f2" by (simp add: cacheKey_def)
qed

theorem cacheKey_injective_without_hyphen_witness:
  "cacheKey \<lparr>path = str ''a-b.md''\<rparr> (str ''status'') \<noteq> cacheKey \<lparr>path = str ''a.md''\<rparr> (str ''status'') \<and>
   cacheKey \<lparr>path = str ''a.md''\<rparr> (str ''status'') \<noteq> cacheKey \<lparr>path = str ''a.md''\<rparr> (str ''owner'')"
proof -
  have 1: "(codeUnit CHR ''-'') \<notin> set (str ''status'')" by simp
  have 2: "(codeUnit CHR ''-'') \<notin> set (str ''owner'')" by simp
  from cacheKey_injective_without_hyphen[OF 1 1, of "\<lparr>path = str ''a-b.md''\<rparr>" "\<lparr>path = str ''a.md''\<rparr>"]
       cacheKey_injective_without_hyphen[OF 1 2, of "\<lparr>path = str ''a.md''\<rparr>" "\<lparr>path = str ''a.md''\<rparr>"]
  show ?thesis by simp
qed

text \<open>
  C8 as stated fails: a hyphen may occur in a path and in a field name, and then two
  different pairs have the same key.
\<close>

theorem cacheKey_collision:
  "cacheKey \<lparr>path = str ''a.md-x.md''\<rparr> (str ''y'') = cacheKey \<lparr>path = str ''a.md''\<rparr> (str ''x.md-y'') \<and>
   ((str ''a.md-x.md''), (str ''y'')) \<noteq> ((str ''a.md''), (str ''x.md-y''))"
  by (simp add: cacheKey_def)

subsection \<open>Who writes a cache entry\<close>

text \<open>
  C9, as the code has it. An inactive group is skipped before the cache is touched, and a
  field that no group watches is never looked at. So when no active group of either kind
  watches a field, neither the seeding on open nor a dispatch changes the cache entry of the
  document and that field: it stays absent if it was absent.
\<close>

theorem cache_written_only_by_active_rules:
  assumes "\<forall>g\<in>set (headerGroups st). \<not> (active g \<and> watchedField g = f)"
    and "\<forall>g\<in>set (commandGroups st). \<not> (active g \<and> watchedField g = f)"
  shows "lastMetadataValues (onFileOpen h st file s) (cacheKey file f)
           = lastMetadataValues s (cacheKey file f) \<and>
         lastMetadataValues (snd (onMetadataChanged h st file s)) (cacheKey file f)
           = lastMetadataValues s (cacheKey file f)"
proof
  show "lastMetadataValues (onFileOpen h st file s) (cacheKey file f)
      = lastMetadataValues s (cacheKey file f)"
    using assms
    by (simp add: onFileOpen_def updateLastMetadataValues_def seedGroups_other split: option.splits)
next
  show "lastMetadataValues (snd (onMetadataChanged h st file s)) (cacheKey file f)
      = lastMetadataValues s (cacheKey file f)"
  proof (cases "frontmatter h (path file)")
    case None
    then show ?thesis by (simp add: onMetadataChanged_def)
  next
    case (Some md)
    obtain r1 s1 where hp: "processHeaderGroups h file md (headerGroups st) s = (r1, s1)"
      by force
    note k1 = processHeaderGroups_other[OF hp assms(1)]
    show ?thesis
    proof (cases r1)
      case None
      obtain r2 s2 where cp: "processCommandGroups h file md (commandGroups st) s1 = (r2, s2)"
        by force
      from processCommandGroups_other[OF cp assms(2)] k1 Some hp None cp
      show ?thesis by (simp add: onMetadataChanged_def)
    next
      case (Some e)
      with \<open>frontmatter h (path file) = Some md\<close> hp k1 show ?thesis
        by (simp add: onMetadataChanged_def)
    qed
  qed
qed

theorem cache_written_only_by_active_rules_witness:
  "lastMetadataValues
     (onFileOpen (hostWith [str ''status'' \<mapsto> JStr (str ''done''), str ''owner'' \<mapsto> JStr (str ''ann'')])
        \<lparr>headerGroups = [headerRule (str ''status'') (str ''## Status'')], commandGroups = []\<rparr>
        noteFile (worldWith Map.empty (str ''## Status'')))
     (cacheKey noteFile (str ''owner'')) = None \<and>
   lastMetadataValues
     (snd (onMetadataChanged (hostWith [str ''status'' \<mapsto> JStr (str ''done''), str ''owner'' \<mapsto> JStr (str ''ann'')])
        \<lparr>headerGroups = [headerRule (str ''status'') (str ''## Status'')], commandGroups = []\<rparr>
        noteFile (worldWith Map.empty (str ''## Status''))))
     (cacheKey noteFile (str ''owner'')) = None"
proof -
  let ?st = "\<lparr>headerGroups = [headerRule (str ''status'') (str ''## Status'')], commandGroups = []\<rparr>"
  have 1: "\<forall>g\<in>set (headerGroups ?st). \<not> (active g \<and> watchedField g = (str ''owner''))"
    by (simp add: sample_defs)
  have 2: "\<forall>g\<in>set (commandGroups ?st). \<not> (active g \<and> watchedField g = (str ''owner''))"
    by simp
  have 3: "lastMetadataValues (worldWith Map.empty (str ''## Status'')) (cacheKey noteFile (str ''owner'')) = None"
    by (simp add: sample_defs)
  from cache_written_only_by_active_rules[OF 1 2,
         of "hostWith [str ''status'' \<mapsto> JStr (str ''done''), str ''owner'' \<mapsto> JStr (str ''ann'')]" noteFile
            "worldWith Map.empty (str ''## Status'')"] 3
  show ?thesis by simp
qed

text \<open>
  C9 as stated fails: with an inactive command group watching \<open>status\<close> and no group
  watching \<open>owner\<close>, both fields present in the snapshot, neither the opening of the
  document nor a metadata change creates a cache entry.
\<close>

theorem inactive_rule_not_refreshed:
  "onFileOpen (hostWith [str ''status'' \<mapsto> JStr (str ''done''), str ''owner'' \<mapsto> JStr (str ''ann'')])
     \<lparr>headerGroups = [], commandGroups = [(commandRule (str ''status'') (str ''app:reload''))\<lparr>active := False\<rparr>]\<rparr>
     noteFile (worldWith Map.empty (str ''text''))
   = worldWith Map.empty (str ''text'') \<and>
   onMetadataChanged (hostWith [str ''status'' \<mapsto> JStr (str ''done''), str ''owner'' \<mapsto> JStr (str ''ann'')])
     \<lparr>headerGroups = [], commandGroups = [(commandRule (str ''status'') (str ''app:reload''))\<lparr>active := False\<rparr>]\<rparr>
     noteFile (worldWith Map.empty (str ''text''))
   = (None, worldWith Map.empty (str ''text'')) \<and>
   lastMetadataValues (worldWith Map.empty (str ''text'')) (cacheKey noteFile (str ''status'')) = None \<and>
   lastMetadataValues (worldWith Map.empty (str ''text'')) (cacheKey noteFile (str ''owner'')) = None"
  by (simp add: dispatch_defs world_ops sample_defs)

subsection \<open>Failures\<close>




subsection \<open>The first header group of a field\<close>

lemma headerGroupStep_fires:
  assumes "active g" and "truthy (getProperty md (watchedField g))"
    and "lastMetadataValues s (cacheKey file (watchedField g)) = None"
    and "vault s (path file) = Some fileContent"
    and "replaceHeaderWithMetadataValue h fileContent (header g) (getProperty md (watchedField g))
           = Inr updatedContent"
    and "writable h (path file)"
  shows "headerGroupStep h file md g s =
     (None, s\<lparr>trace := trace s @ [VaultRead (path file), VaultModify (path file) updatedContent],
              vault := (vault s)(path file \<mapsto> updatedContent),
              lastMetadataValues :=
                (lastMetadataValues s)(cacheKey file (watchedField g) \<mapsto> getProperty md (watchedField g))\<rparr>)"
  using assms truthy_not_undefined[OF assms(2)]
  by (simp add: headerGroupStep_def Let_def world_ops)

text \<open>
  C2, as the code has it. The baseline is kept per field, not per group, so the rewrite on
  the first observation is done for the first active header group that watches the field.
  Let \<open>g\<close> be an active header group whose field is truthy in the snapshot, with no active
  header group watching the same field before it in the settings, and let the cache hold no
  entry for the document and the field when the change is dispatched. If the groups before
  \<open>g\<close> are processed without a failure and the read, the pattern and the write of \<open>g\<close>
  succeed, then the dispatch reads the document and writes back the text rewritten for
  \<open>g\<close>, and at the end of the dispatch the cache entry is the value of the snapshot.
\<close>

theorem header_rewrite_on_first_observation:
  assumes "frontmatter h (path file) = Some metadata"
    and "headerGroups st = gs1 @ g # gs2"
    and "\<forall>g'\<in>set gs1. \<not> (active g' \<and> watchedField g' = watchedField g)"
    and "active g" and "truthy (getProperty metadata (watchedField g))"
    and "lastMetadataValues s (cacheKey file (watchedField g)) = None"
    and "processHeaderGroups h file metadata gs1 s = (None, s1)"
    and "vault s1 (path file) = Some fileContent"
    and "replaceHeaderWithMetadataValue h fileContent (header g)
           (getProperty metadata (watchedField g)) = Inr updatedContent"
    and "writable h (path file)"
    and "onMetadataChanged h st file s = (r, s')"
  shows "(\<exists>tr. trace s' = trace s1 @ [VaultRead (path file), VaultModify (path file) updatedContent] @ tr) \<and>
         lastMetadataValues s' (cacheKey file (watchedField g))
           = Some (getProperty metadata (watchedField g))"
proof -
  let ?k = "cacheKey file (watchedField g)" and ?v = "getProperty metadata (watchedField g)"
  define s2 where "s2 = s1\<lparr>trace := trace s1 @ [VaultRead (path file), VaultModify (path file) updatedContent],
              vault := (vault s1)(path file \<mapsto> updatedContent),
              lastMetadataValues := (lastMetadataValues s1)(?k \<mapsto> ?v)\<rparr>"
  from processHeaderGroups_other[OF assms(7,3)] assms(6)
  have "lastMetadataValues s1 ?k = None" by simp
  from headerGroupStep_fires[OF assms(4,5) this assms(8,9,10)]
  have step: "headerGroupStep h file metadata g s1 = (None, s2)" by (simp add: s2_def)
  obtain r3 s3 where rest: "processHeaderGroups h file metadata gs2 s2 = (r3, s3)" by force
  have t2: "trace s2 = trace s1 @ [VaultRead (path file), VaultModify (path file) updatedContent]"
    and c2: "lastMetadataValues s2 ?k = Some ?v" by (simp_all add: s2_def)
  from processHeaderGroups_trace[OF rest] obtain tr3 where t3: "trace s3 = trace s2 @ tr3" ..
  note c3 = processHeaderGroups_keeps[OF rest c2]
  have hp: "processHeaderGroups h file metadata (headerGroups st) s = (r3, s3)"
    using assms(2,7) step rest by (simp add: processHeaderGroups_append)
  show ?thesis
  proof (cases r3)
    case None
    with assms(1,11) hp
    have cp: "processCommandGroups h file metadata (commandGroups st) s3 = (r, s')"
      by (simp add: onMetadataChanged_def)
    from processCommandGroups_trace[OF cp] obtain tr4 where "trace s' = trace s3 @ tr4" ..
    with t3 t2 processCommandGroups_keeps[OF cp c3] show ?thesis by simp
  next
    case (Some e)
    with assms(1,11) hp have "s' = s3" by (simp add: onMetadataChanged_def)
    with t3 t2 c3 show ?thesis by simp
  qed
qed

theorem header_rewrite_on_first_observation_witness:
  "(\<exists>tr. trace (snd (onMetadataChanged (hostWith [str ''date'' \<mapsto> JStr (str ''2024-01-01'')])
        \<lparr>headerGroups = [headerRule (str ''owner'') (str ''## Owner''), headerRule (str ''date'') (str ''## Start''),
                         headerRule (str ''date'') (str ''## Begin'')],
         commandGroups = [commandRule (str ''date'') (str ''app:reload'')]\<rparr>
        noteFile (worldWith Map.empty (str ''## Start\<newline>## Begin''))))
      = trace (worldWith Map.empty (str ''## Start\<newline>## Begin''))
        @ [VaultRead (str ''note.md''), VaultModify (str ''note.md'') (str ''## Start 2024-01-01\<newline>## Begin'')] @ tr) \<and>
   lastMetadataValues (snd (onMetadataChanged (hostWith [str ''date'' \<mapsto> JStr (str ''2024-01-01'')])
        \<lparr>headerGroups = [headerRule (str ''owner'') (str ''## Owner''), headerRule (str ''date'') (str ''## Start''),
                         headerRule (str ''date'') (str ''## Begin'')],
         commandGroups = [commandRule (str ''date'') (str ''app:reload'')]\<rparr>
        noteFile (worldWith Map.empty (str ''## Start\<newline>## Begin''))))
     (cacheKey noteFile (str ''date'')) = Some (JStr (str ''2024-01-01''))"
proof -
  let ?md = "[str ''date'' \<mapsto> JStr (str ''2024-01-01'')]"
  let ?h = "hostWith ?md"
  let ?g = "headerRule (str ''date'') (str ''## Start'')"
  let ?gs1 = "[headerRule (str ''owner'') (str ''## Owner'')]"
  let ?gs2 = "[headerRule (str ''date'') (str ''## Begin'')]"
  let ?st = "\<lparr>headerGroups = [headerRule (str ''owner'') (str ''## Owner''), headerRule (str ''date'') (str ''## Start''),
                         headerRule (str ''date'') (str ''## Begin'')],
         commandGroups = [commandRule (str ''date'') (str ''app:reload'')]\<rparr>"
  let ?s = "worldWith Map.empty (str ''## Start\<newline>## Begin'')"
  let ?res = "onMetadataChanged ?h ?st noteFile ?s"
  have 1: "frontmatter ?h (path noteFile) = Some ?md" by (simp add: sample_defs)
  have 2: "headerGroups ?st = ?gs1 @ ?g # ?gs2" by simp
  have 3: "\<forall>g'\<in>set ?gs1. \<not> (active g' \<and> watchedField g' = watchedField ?g)"
    by (simp add: sample_defs)
  have 4: "active ?g" by (simp add: sample_defs)
  have 5: "truthy (getProperty ?md (watchedField ?g))" by (simp add: sample_defs getProperty_def)
  have 6: "lastMetadataValues ?s (cacheKey noteFile (watchedField ?g)) = None"
    by (simp add: sample_defs)
  have 7: "processHeaderGroups ?h noteFile ?md ?gs1 ?s = (None, ?s)"
    by (simp add: dispatch_defs world_ops sample_defs)
  have 8: "vault ?s (path noteFile) = Some (str ''## Start\<newline>## Begin'')"
    by (simp add: sample_defs)
  have 9: "replaceHeaderWithMetadataValue ?h (str ''## Start\<newline>## Begin'') (header ?g)
              (getProperty ?md (watchedField ?g)) = Inr (str ''## Start 2024-01-01\<newline>## Begin'')"
    by (simp add: rewrite_defs sample_defs getProperty_def)
  have 10: "writable ?h (path noteFile)" by (simp add: sample_defs)
  have 11: "?res = (fst ?res, snd ?res)" by simp
  have 12: "watchedField ?g = (str ''date'')" "path noteFile = (str ''note.md'')"
    "getProperty ?md (str ''date'') = JStr (str ''2024-01-01'')"
    by (simp_all add: sample_defs getProperty_def)
  from header_rewrite_on_first_observation[OF 1 2 3 4 5 6 7 8 9 10 11]
  show ?thesis unfolding 12 .
qed

text \<open>
  C2 as stated fails for a second header group on the same field: the first group sets the
  baseline, the second finds the value unchanged and its header line is not rewritten.
\<close>

theorem second_header_group_not_rewritten:
  "onMetadataChanged (hostWith [str ''date'' \<mapsto> JStr (str ''2024-01-01'')])
     \<lparr>headerGroups = [headerRule (str ''date'') (str ''## Start''), headerRule (str ''date'') (str ''## Begin'')],
      commandGroups = []\<rparr>
     noteFile (worldWith Map.empty (str ''## Start\<newline>## Begin''))
   = (None,
      \<lparr>lastMetadataValues = [str ''note.md-date'' \<mapsto> JStr (str ''2024-01-01'')],
       vault = [str ''note.md'' \<mapsto> str ''## Start 2024-01-01\<newline>## Begin''],
       trace = [VaultRead (str ''note.md''),
                VaultModify (str ''note.md'') (str ''## Start 2024-01-01\<newline>## Begin'')]\<rparr>)"
  by (simp add: dispatch_defs world_ops sample_defs rewrite_defs)

subsection \<open>Headers that match nowhere\<close>





subsection \<open>The rewritten line\<close>

lemma literalPattern_Cons:
  "literalPattern (a # as) \<longleftrightarrow> \<not> syntaxCharacter a \<and> literalPattern as"
  by (simp add: literalPattern_def)

lemma literalPattern_plain: "literalPattern hdr \<Longrightarrow> plainPattern hdr"
  by (induction hdr) (simp_all add: literalPattern_def plainPattern_def)

lemma dot_is_syntaxCharacter: "syntaxCharacter (codeUnit CHR ''.'')"
  by (simp add: syntaxCharacter_def str_def)

lemma matchHeader_literal:
  "literalPattern hdr \<Longrightarrow>
     matchHeader hdr s = (if take (length hdr) s = hdr then Some (hdr, drop (length hdr) s) else None)"
proof (induction hdr arbitrary: s)
  case Nil
  then show ?case by simp
next
  case (Cons a as)
  from Cons.prems have a: "a \<noteq> codeUnit CHR ''.''" and as: "literalPattern as"
    using dot_is_syntaxCharacter by (auto simp: literalPattern_Cons)
  show ?case
  proof (cases s)
    case Nil
    then show ?thesis by simp
  next
    case (Cons c cs)
    with a Cons.IH[OF as, of cs] show ?thesis by auto
  qed
qed

lemma getSubstitution_plain:
  "codeUnit CHR ''$'' \<notin> set t \<Longrightarrow> getSubstitution m p q caps named t = t"
  by (induction m p q caps named t rule: getSubstitution.induct) auto

lemma getSubstitution_template:
  assumes "codeUnit CHR ''$'' \<notin> set t"
  shows "getSubstitution m p q [Some g1, Some g2] named (str ''$1 '' @ t) = g1 @ str '' '' @ t"
proof -
  have "getSubstitution m p q [Some g1, Some g2] named (codeUnit CHR '' '' # t) = codeUnit CHR '' '' # t"
    by (rule getSubstitution_plain) (use assms in \<open>simp add: codeUnit_def\<close>)
  then show ?thesis
    by (simp add: isDigit_def digitVal_def captureText_def str_def codeUnit_def)
qed

lemma headerRegexExec_first_match:
  assumes "literalPattern hdr"
  shows "rest = p @ hdr @ mid @ post \<Longrightarrow>
     (p = [] \<and> ls) \<or> (p \<noteq> [] \<and> lineTerminator (last p)) \<Longrightarrow>
     \<forall>c\<in>set mid. \<not> lineTerminator c \<Longrightarrow>
     post = [] \<or> lineTerminator (hd post) \<Longrightarrow>
     \<forall>p' suf. rest = p' @ hdr @ suf \<and> length p' < length p \<longrightarrow>
        (p' = [] \<and> \<not> ls) \<or> (p' \<noteq> [] \<and> \<not> lineTerminator (last p')) \<Longrightarrow>
     headerRegexExec hdr ls pre rest =
       Some \<lparr>matchPre = pre @ p, matchText = hdr @ mid, matchGroups = [Some hdr, Some mid],
             matchNamed = None, matchPost = post\<rparr>"
proof (induction p arbitrary: rest ls pre)
  case Nil
  have tw: "takeWhile (\<lambda>c. \<not> lineTerminator c) (mid @ post) = mid"
    using Nil.prems(3,4) by (cases post) (simp_all add: takeWhile_tail)
  have dw: "dropWhile (\<lambda>c. \<not> lineTerminator c) (mid @ post) = post"
    using Nil.prems(3,4) by (cases post) (simp_all add: dropWhile_append2)
  from Nil.prems(1,2) tw dw show ?case
    by (simp add: matchHeader_literal[OF assms])
next
  case (Cons c p)
  have rest: "rest = c # (p @ hdr @ mid @ post)" using Cons.prems(1) by simp
  have a: "\<not> (ls \<and> take (length hdr) rest = hdr)"
  proof
    assume b: "ls \<and> take (length hdr) rest = hdr"
    then have "rest = [] @ hdr @ drop (length hdr) rest"
      by (metis append_Nil append_take_drop_id)
    with Cons.prems(5) have "\<not> ls" by fastforce
    with b show False by simp
  qed
  have start: "(p = [] \<and> lineTerminator c) \<or> (p \<noteq> [] \<and> lineTerminator (last p))"
    using Cons.prems(2) by (cases p) auto
  have first: "\<forall>p' suf. p @ hdr @ mid @ post = p' @ hdr @ suf \<and> length p' < length p \<longrightarrow>
        (p' = [] \<and> \<not> lineTerminator c) \<or> (p' \<noteq> [] \<and> \<not> lineTerminator (last p'))"
  proof (intro allI impI)
    fix p' suf assume h: "p @ hdr @ mid @ post = p' @ hdr @ suf \<and> length p' < length p"
    then have "rest = (c # p') @ hdr @ suf \<and> length (c # p') < length (c # p)"
      using rest by simp
    with Cons.prems(5) have "\<not> lineTerminator (last (c # p'))" by blast
    then show "(p' = [] \<and> \<not> lineTerminator c) \<or> (p' \<noteq> [] \<and> \<not> lineTerminator (last p'))"
      by (cases p') auto
  qed
  from Cons.IH[OF refl start Cons.prems(3,4) first, of "pre @ [c]"] a rest
  show ?case
    by (simp del: headerRegexExec.simps
          add: headerRegexExec.simps[of hdr ls pre "c # _"] matchHeader_literal[OF assms])
qed

text \<open>
  What the rewrite does when the header matches itself and the text of the value has no
  dollar sign: the first line that begins with the header becomes the header, a space and
  the text of the value; the text before and after that line is kept.
\<close>

lemma rewrite_first_header_line:
  assumes "literalPattern hdr" and "codeUnit CHR ''$'' \<notin> set (toString h v)"
    and "content = p @ hdr @ mid @ post"
    and "p = [] \<or> lineTerminator (last p)"
    and "\<forall>c\<in>set mid. \<not> lineTerminator c"
    and "post = [] \<or> lineTerminator (hd post)"
    and "\<forall>p' suf. content = p' @ hdr @ suf \<and> length p' < length p \<longrightarrow>
           p' \<noteq> [] \<and> \<not> lineTerminator (last p')"
  shows "replaceHeaderWithMetadataValue h content hdr v = Inr (p @ hdr @ str '' '' @ toString h v @ post)"
proof -
  have "headerRegexExec hdr True [] content =
      Some \<lparr>matchPre = [] @ p, matchText = hdr @ mid, matchGroups = [Some hdr, Some mid],
            matchNamed = None, matchPost = post\<rparr>"
    by (rule headerRegexExec_first_match[OF assms(1,3)]) (use assms(4-7) in auto)
  with literalPattern_plain[OF assms(1)] getSubstitution_template[OF assms(2)]
  show ?thesis
    by (simp add: replaceHeaderWithMetadataValue_def headerRegex_def)
qed

lemma rewrite_empty_header:
  assumes "codeUnit CHR ''$'' \<notin> set (toString h v)"
    and "\<forall>c\<in>set line. \<not> lineTerminator c"
    and "post = [] \<or> lineTerminator (hd post)"
  shows "replaceHeaderWithMetadataValue h (line @ post) [] v = Inr (str '' '' @ toString h v @ post)"
  using rewrite_first_header_line[of "[]" h v "line @ post" "[]" line post] assms
  by (simp add: literalPattern_def)

text \<open>
  C5. The claim holds for headers that match themselves and values without a dollar sign
  (\<open>rewrite_first_header_line\<close>), and the code departs from it elsewhere. The text of the
  value is spliced into the replacement text, where \<^verbatim>\<open>$1\<close>, \<^verbatim>\<open>$&\<close> and the like are
  expanded: the value \<^verbatim>\<open>$100\<close> leaves the header followed by the header and \<^verbatim>\<open>00\<close>.
  The header is spliced unescaped into the pattern: the header \<^verbatim>\<open>## v1.0\<close> rewrites the
  line \<^verbatim>\<open>## v120 legacy\<close>, which does not begin with it, and leaves the line that does.
\<close>

theorem header_rewrite_splices_unescaped:
  "replaceHeaderWithMetadataValue (hostWith Map.empty) (str ''## Price old'') (str ''## Price'')
     (JStr (str ''$100''))
     = Inr (str ''## Price ## Price00'') \<and>
   replaceHeaderWithMetadataValue (hostWith Map.empty) (str ''## v120 legacy\<newline>## v1.0 old'')
     (str ''## v1.0'') (JStr (str ''done''))
     = Inr (str ''## v120 done\<newline>## v1.0 old'')"
  by (simp add: rewrite_defs)

text \<open>
  C10. With an empty header the first line is replaced (\<open>rewrite_empty_header\<close> for the
  values without a dollar sign), but not always by a space and the text of the value: for
  the value \<^verbatim>\<open>$100\<close> the line becomes a space and \<^verbatim>\<open>00\<close>, and for the value \<^verbatim>\<open>$&\<close> the
  first line is kept behind the space.
\<close>

theorem empty_header_dollar_value:
  "replaceHeaderWithMetadataValue (hostWith Map.empty) (str ''Title\<newline>body'') []
     (JStr (str ''$100''))
     = Inr (str '' 00\<newline>body'') \<and>
   replaceHeaderWithMetadataValue (hostWith Map.empty) (str ''Title\<newline>body'') []
     (JStr (str ''$&''))
     = Inr (str '' Title\<newline>body'')"
  by (simp add: rewrite_defs)

end
